theory Spec2Isabelle
  imports Main "HOL-Library.Word"
begin

section \<open>Data model of simdCalloc.h\<close>

text \<open>
  The header works on \<open>size_t\<close> values (64-bit unsigned, arithmetic modulo \<open>2 ^ 64\<close>),
  on an \<open>int\<close> loop counter (32-bit two's complement, overflow undefined) and on bytes
  of memory. Pointers are \<open>size_t\<close>-sized addresses, \<open>NULL\<close> being address 0.
\<close>

type_synonym size_t = "64 word"
type_synonym c_int = "32 word"
type_synonym byte = "8 word"

text \<open>Memory is a map from addresses (mathematical integers) to bytes.\<close>

type_synonym heap = "int \<Rightarrow> byte"

text \<open>
  The conditional compilation \<open>#if defined(__AVX512F__) ... #elif defined(__AVX2__) ...
  #elif defined(__SSE2__) ... #else\<close> selects one of four variants per build.
\<close>

datatype build = AVX512F | AVX2 | SSE2 | NoVector

text \<open>
  Behaviour the C standard leaves undefined is a value of its own: the division by zero
  of \<open>size_t\<close> operands and the overflow of the signed \<open>int\<close> counter.
\<close>

datatype ub = DivisionByZero | SignedOverflow

definition SIZE_MAX :: size_t where
  "SIZE_MAX = 18446744073709551615"

definition INT_MAX :: c_int where
  "INT_MAX = 2147483647"

definition NULL :: size_t where
  "NULL = 0"

text \<open>
  The calls that \<open>calloc_simd\<close> makes to its two callees, in order:
  \<open>aligned_alloc(alignment, size)\<close> and \<open>simd_clear_mem(memory, space)\<close>.
\<close>

datatype call = AlignedAlloc size_t size_t | ClearMem size_t size_t

record world =
  heap :: heap
  calls :: "call list"

section \<open>The functions of simdCalloc.h\<close>

text \<open>
  \<open>return (size + alignment - 1) / alignment * alignment;\<close> on \<open>size_t\<close>: sum,
  difference and product wrap around, the division is unsigned and undefined for a zero
  divisor.
\<close>

definition round_to_alignment :: "size_t \<Rightarrow> size_t \<Rightarrow> ub + size_t" where
  "round_to_alignment sz alignment =
     (if alignment = 0 then Inl DivisionByZero
      else Inr ((sz + alignment - 1) div alignment * alignment))"

text \<open>The local \<open>alignment\<close> of \<open>calloc_simd\<close>: 16, overwritten by the build's branch.\<close>

fun alignment :: "build \<Rightarrow> size_t" where
  "alignment AVX512F = 64"
| "alignment AVX2 = 32"
| "alignment SSE2 = 16"
| "alignment NoVector = 16"

text \<open>The local \<open>registerSize\<close> of \<open>simd_clear_mem\<close>, set in the build's branch.\<close>

fun registerSize :: "build \<Rightarrow> size_t" where
  "registerSize AVX512F = 64"
| "registerSize AVX2 = 32"
| "registerSize SSE2 = 16"
| "registerSize NoVector = 8"

text \<open>A store of \<open>n\<close> zero bytes at address \<open>a\<close>.\<close>

definition store_zero :: "heap \<Rightarrow> int \<Rightarrow> int \<Rightarrow> heap" where
  "store_zero h a n = (\<lambda>x. if a \<le> x \<and> x < a + n then 0 else h x)"

text \<open>
  The byte offset of the store of step \<open>i\<close>. In the vector builds the index into
  \<open>(double* )memory\<close> is \<open>i*(registerSize / 8)\<close>, computed in \<open>size_t\<close> after the
  conversion of the \<open>int\<close> counter; in the fallback it is the \<open>int\<close> counter itself.
  A \<open>double\<close> is 8 bytes.
\<close>

fun step_offset :: "build \<Rightarrow> c_int \<Rightarrow> int" where
  "step_offset NoVector i = 8 * sint i"
| "step_offset b i = 8 * uint ((scast i :: size_t) * (registerSize b div 8))"

text \<open>
  \<open>for(int i = 0; i < vectorSteps; i++) store(...)\<close>. The comparison converts the
  \<open>int\<close> counter to \<open>size_t\<close> (sign extension); \<open>i++\<close> at \<open>INT_MAX\<close> is undefined.
  The result is the memory and the counter when the loop is left.
\<close>

function vector_loop :: "build \<Rightarrow> size_t \<Rightarrow> size_t \<Rightarrow> c_int \<Rightarrow> heap \<Rightarrow> ub + (heap \<times> c_int)" where
  "vector_loop b memory vectorSteps i h =
     (if (scast i :: size_t) < vectorSteps then
        (let h' = store_zero h (uint memory + step_offset b i) (uint (registerSize b))
         in if i = INT_MAX then Inl SignedOverflow
            else vector_loop b memory vectorSteps (i + 1) h')
      else Inr (h, i))"
  by pat_completeness auto
termination
proof (relation "measure (\<lambda>(b, memory, vectorSteps, i, h). nat (2147483647 - sint i))")
  show "wf (measure (\<lambda>(b, memory, vectorSteps, i, h). nat (2147483647 - sint i)))"
    by simp
next
  fix b :: build and memory vectorSteps :: size_t and i :: c_int and h x :: heap
  assume ne: "i \<noteq> INT_MAX"
  have "sint i \<noteq> sint INT_MAX"
    using ne signed_word_eqI [of i INT_MAX] by blast
  moreover have "sint i < 2 ^ 31" using sint_lt [of i] by simp
  moreover have "- (2 ^ 31) \<le> sint i" using sint_ge [of i] by simp
  ultimately have r: "- (2 ^ 31) \<le> sint i + 1" "sint i + 1 < 2 ^ 31"
    by (simp_all add: INT_MAX_def)
  have "sint (i + 1) = signed_take_bit 31 (sint i + 1)"
    by (simp add: sint_word_ariths)
  also have "\<dots> = sint i + 1"
    using r by (rule signed_take_bit_int_eq_self)
  finally have "sint (i + 1) = sint i + 1" .
  with r show "((b, memory, vectorSteps, i + 1, x), (b, memory, vectorSteps, i, h))
      \<in> measure (\<lambda>(b, memory, vectorSteps, i, h). nat (2147483647 - sint i))"
    by simp
qed

text \<open>
  \<open>for (size_t i = vectorSteps * registerSize; i < space; i++)
  ((unsigned char* ) memory)[i] = 0;\<close>
\<close>

function tail_loop :: "size_t \<Rightarrow> size_t \<Rightarrow> size_t \<Rightarrow> heap \<Rightarrow> heap" where
  "tail_loop memory space i h =
     (if i < space then tail_loop memory space (i + 1) (h(uint memory + uint i := 0))
      else h)"
  by pat_completeness auto
termination
proof (relation "measure (\<lambda>(memory, space, i, h). nat (uint space - uint i))")
  show "wf (measure (\<lambda>(memory, space, i, h). nat (uint space - uint i)))"
    by simp
next
  fix memory space i :: size_t and h :: heap
  assume "i < space"
  then have lt: "uint i < uint space" by (simp only: word_less_alt)
  moreover have "uint space < 2 ^ LENGTH(64)" by (rule uint_lt2p)
  ultimately have "uint i + uint (1 :: size_t) < 2 ^ LENGTH(64)" by simp
  then have "uint (i + 1) = uint i + 1" by (simp add: uint_add_lem [THEN iffD1])
  with lt show "((memory, space, i + 1, h(uint memory + uint i := 0)), (memory, space, i, h))
      \<in> measure (\<lambda>(memory, space, i, h). nat (uint space - uint i))"
    by simp
qed

text \<open>
  \<open>simd_clear_mem\<close>: the chunked loop of the build's branch from counter 0, then the
  byte loop from \<open>vectorSteps * registerSize\<close>.
\<close>

definition simd_clear_mem :: "build \<Rightarrow> size_t \<Rightarrow> size_t \<Rightarrow> heap \<Rightarrow> ub + heap" where
  "simd_clear_mem b memory space h =
     (let vectorSteps = space div registerSize b
      in case vector_loop b memory vectorSteps 0 h of
           Inl e \<Rightarrow> Inl e
         | Inr (h', i) \<Rightarrow> Inr (tail_loop memory space (vectorSteps * registerSize b) h'))"

text \<open>
  \<open>calloc_simd\<close>. The C11 allocator is a parameter: \<open>aligned_alloc alignment size\<close> is
  the pointer it returns, \<open>NULL\<close> on failure. The contents of a fresh block are whatever
  the heap holds there.
\<close>

definition calloc_simd ::
  "build \<Rightarrow> (size_t \<Rightarrow> size_t \<Rightarrow> size_t) \<Rightarrow> size_t \<Rightarrow> size_t \<Rightarrow> world \<Rightarrow> ub + (size_t \<times> world)" where
  "calloc_simd b aligned_alloc items sz w =
     (if items \<noteq> 0 \<and> sz > SIZE_MAX div items then Inr (NULL, w)
      else case round_to_alignment (items * sz) (alignment b) of
          Inl e \<Rightarrow> Inl e
        | Inr tot \<Rightarrow>
            (let ptr = aligned_alloc (alignment b) tot;
                 w1 = w\<lparr>calls := calls w @ [AlignedAlloc (alignment b) tot]\<rparr>
             in if ptr = NULL then Inr (NULL, w1)
                else case simd_clear_mem b ptr tot (heap w1) of
                    Inl e \<Rightarrow> Inl e
                  | Inr h' \<Rightarrow>
                      Inr (ptr, w1\<lparr>heap := h', calls := calls w1 @ [ClearMem ptr tot]\<rparr>)))"

subsection \<open>The same code where the counter wraps around\<close>

text \<open>
  The C standard leaves \<open>i++\<close> at \<open>INT_MAX\<close> undefined; \<open>vector_loop\<close> above stops
  there. Compiled for a two's complement target without assuming the absence of
  overflow, the same statement wraps the counter to \<open>INT_MIN\<close>. The loop is then the
  same test and the same store, with \<open>i + 1\<close> modulo \<open>2 ^ 32\<close>; the loop is left at the
  latest at \<open>i = -1\<close>, whose conversion is the largest \<open>size_t\<close>.
\<close>


function vector_loop_wrap :: "build \<Rightarrow> size_t \<Rightarrow> size_t \<Rightarrow> c_int \<Rightarrow> heap \<Rightarrow> heap \<times> c_int" where
  "vector_loop_wrap b memory vectorSteps i h =
     (if (scast i :: size_t) < vectorSteps then
        vector_loop_wrap b memory vectorSteps (i + 1)
          (store_zero h (uint memory + step_offset b i) (uint (registerSize b)))
      else (h, i))"
  by pat_completeness auto
termination
proof (relation "measure (\<lambda>(b, memory, vectorSteps, i, h). unat (- 1 - i))")
  show "wf (measure (\<lambda>(b, memory, vectorSteps, i, h). unat (- 1 - i)))"
    by simp
next
  fix b :: build and memory vectorSteps :: size_t and i :: c_int and h :: heap
  assume lt: "(scast i :: size_t) < vectorSteps"
  have "i \<noteq> - 1"
  proof
    assume "i = - 1"
    then have "(scast i :: size_t) = - 1" by simp
    with lt have "(- 1 :: size_t) < vectorSteps" by simp
    then show False using word_order.extremum [of vectorSteps] by (simp only: leD)
  qed
  then have nz: "- 1 - i \<noteq> 0" by simp
  have "unat ((- 1 - i) - 1) = unat (- 1 - i) - 1"
    using nz by (rule unat_minus_one)
  moreover have "- 1 - (i + 1) = (- 1 - i) - 1" by simp
  ultimately have "unat (- 1 - (i + 1)) = unat (- 1 - i) - 1"
    by (simp only:)
  moreover have "unat (- 1 - i) \<noteq> 0" using nz by (simp only: unat_eq_0 not_False_eq_True)
  ultimately show "((b, memory, vectorSteps, i + 1,
        store_zero h (uint memory + step_offset b i) (uint (registerSize b))),
       (b, memory, vectorSteps, i, h))
      \<in> measure (\<lambda>(b, memory, vectorSteps, i, h). unat (- 1 - i))"
    by simp
qed

text \<open>\<open>simd_clear_mem\<close> and \<open>calloc_simd\<close>, line by line as above, over the wrapping loop.\<close>

definition simd_clear_mem_wrap :: "build \<Rightarrow> size_t \<Rightarrow> size_t \<Rightarrow> heap \<Rightarrow> heap" where
  "simd_clear_mem_wrap b memory space h =
     (let vectorSteps = space div registerSize b;
          (h', i) = vector_loop_wrap b memory vectorSteps 0 h
      in tail_loop memory space (vectorSteps * registerSize b) h')"

definition calloc_simd_wrap ::
  "build \<Rightarrow> (size_t \<Rightarrow> size_t \<Rightarrow> size_t) \<Rightarrow> size_t \<Rightarrow> size_t \<Rightarrow> world \<Rightarrow> ub + (size_t \<times> world)" where
  "calloc_simd_wrap b aligned_alloc items sz w =
     (if items \<noteq> 0 \<and> sz > SIZE_MAX div items then Inr (NULL, w)
      else case round_to_alignment (items * sz) (alignment b) of
          Inl e \<Rightarrow> Inl e
        | Inr tot \<Rightarrow>
            (let ptr = aligned_alloc (alignment b) tot;
                 w1 = w\<lparr>calls := calls w @ [AlignedAlloc (alignment b) tot]\<rparr>
             in if ptr = NULL then Inr (NULL, w1)
                else Inr (ptr, w1\<lparr>heap := simd_clear_mem_wrap b ptr tot (heap w1),
                                 calls := calls w1 @ [ClearMem ptr tot]\<rparr>)))"

section \<open>Auxiliary facts\<close>

text \<open>The two loops are unfolded one step at a time, never by the simplifier.\<close>

declare vector_loop.simps [simp del] tail_loop.simps [simp del]
  vector_loop_wrap.simps [simp del]

subsection \<open>Machine arithmetic\<close>

lemma sint_INT_MAX: "sint INT_MAX = 2147483647"
  by (simp add: INT_MAX_def)

lemma sint_c_int_range: "- 2147483648 \<le> sint (i :: c_int) \<and> sint i \<le> 2147483647"
  using sint_lt [of i] sint_ge [of i] by simp

lemma sint_eq_INT_MAX: "(i = INT_MAX) = (sint i = 2147483647)"
proof
  assume "i = INT_MAX"
  then show "sint i = 2147483647" by (simp add: sint_INT_MAX)
next
  assume "sint i = 2147483647"
  then have "sint i = sint INT_MAX" by (simp add: sint_INT_MAX)
  then show "i = INT_MAX" by (rule signed_word_eqI)
qed

lemma sint_succ: "(i :: c_int) \<noteq> INT_MAX \<Longrightarrow> sint (i + 1) = sint i + 1"
proof -
  assume "i \<noteq> INT_MAX"
  then have "sint i \<noteq> 2147483647" by (simp add: sint_eq_INT_MAX)
  with sint_c_int_range [of i]
  have r: "- (2 ^ 31) \<le> sint i + 1" "sint i + 1 < 2 ^ 31" by simp_all
  have "sint (i + 1) = signed_take_bit 31 (sint i + 1)"
    by (simp add: sint_word_ariths)
  also have "\<dots> = sint i + 1"
    using r by (rule signed_take_bit_int_eq_self)
  finally show ?thesis .
qed

lemma uint_size_t_bound: "uint (x :: size_t) < 18446744073709551616"
  using uint_lt2p [of x] by simp

lemma uint_scast_nonneg: "0 \<le> sint (i :: c_int) \<Longrightarrow> uint (scast i :: size_t) = sint i"
proof -
  assume a: "0 \<le> sint i"
  have "sint i < 2 ^ 31" using sint_lt [of i] by simp
  also have "(2 :: int) ^ 31 < 2 ^ LENGTH(64)" by simp
  finally have "sint i < 2 ^ LENGTH(64)" .
  with a have "sint i mod 2 ^ LENGTH(64) = sint i" by (rule mod_pos_pos_trivial)
  then show ?thesis by (simp only: scast_eq uint_word_of_int)
qed

lemma uint_mult_small:
  "uint (x :: size_t) * uint (y :: size_t) < 18446744073709551616 \<Longrightarrow> uint (x * y) = uint x * uint y"
  using uint_mult_lem [of x y] by simp

lemma step_offset_eq: "0 \<le> sint i \<Longrightarrow> step_offset b i = sint i * uint (registerSize b)"
proof (cases b)
  case NoVector
  then show ?thesis by simp
next
  case AVX512F
  assume a: "0 \<le> sint i"
  have "uint (scast i :: size_t) * uint (8 :: size_t) < 18446744073709551616"
    using a sint_c_int_range [of i] by (simp add: uint_scast_nonneg)
  then have "uint ((scast i :: size_t) * 8) = sint i * 8"
    using a by (simp add: uint_mult_small uint_scast_nonneg)
  then show ?thesis using AVX512F by simp
next
  case AVX2
  assume a: "0 \<le> sint i"
  have "uint (scast i :: size_t) * uint (4 :: size_t) < 18446744073709551616"
    using a sint_c_int_range [of i] by (simp add: uint_scast_nonneg)
  then have "uint ((scast i :: size_t) * 4) = sint i * 4"
    using a by (simp add: uint_mult_small uint_scast_nonneg)
  then show ?thesis using AVX2 by simp
next
  case SSE2
  assume a: "0 \<le> sint i"
  have "uint (scast i :: size_t) * uint (2 :: size_t) < 18446744073709551616"
    using a sint_c_int_range [of i] by (simp add: uint_scast_nonneg)
  then have "uint ((scast i :: size_t) * 2) = sint i * 2"
    using a by (simp add: uint_mult_small uint_scast_nonneg)
  then show ?thesis using SSE2 by simp
qed

subsection \<open>Stores and the two loops\<close>

lemma store_zero_none: "n \<le> 0 \<Longrightarrow> store_zero h a n = h"
  by (auto simp: store_zero_def fun_eq_iff)

lemma store_zero_append:
  "0 \<le> n \<Longrightarrow> 0 \<le> m \<Longrightarrow> store_zero (store_zero h a n) (a + n) m = store_zero h a (n + m)"
  by (auto simp: store_zero_def fun_eq_iff)

lemma store_zero_byte: "h(a := 0) = store_zero h a 1"
  by (auto simp: store_zero_def fun_eq_iff)

lemma vector_loop_ok:
  "uint vectorSteps \<le> 2147483647 \<Longrightarrow> 0 \<le> sint i \<Longrightarrow> sint i \<le> uint vectorSteps \<Longrightarrow>
   \<exists>j. vector_loop b memory vectorSteps i h =
         Inr (store_zero h (uint memory + sint i * uint (registerSize b))
                ((uint vectorSteps - sint i) * uint (registerSize b)), j)
       \<and> sint j = uint vectorSteps"
proof (induction b memory vectorSteps i h rule: vector_loop.induct)
  case (1 b memory vectorSteps i h)
  let ?r = "uint (registerSize b)"
  have rpos: "0 \<le> ?r" by simp
  show ?case
  proof (cases "(scast i :: size_t) < vectorSteps")
    case True
    then have lt: "sint i < uint vectorSteps"
      using "1.prems" by (simp add: word_less_alt uint_scast_nonneg)
    then have ne: "i \<noteq> INT_MAX" using "1.prems" by (simp add: sint_eq_INT_MAX)
    then have suc: "sint (i + 1) = sint i + 1" by (rule sint_succ)
    let ?h' = "store_zero h (uint memory + step_offset b i) ?r"
    from "1.IH" [OF True refl ne] "1.prems" lt suc
    obtain j where j: "vector_loop b memory vectorSteps (i + 1) ?h' =
         Inr (store_zero ?h' (uint memory + (sint i + 1) * ?r)
                ((uint vectorSteps - (sint i + 1)) * ?r), j)" "sint j = uint vectorSteps"
      by auto
    have "store_zero ?h' (uint memory + (sint i + 1) * ?r) ((uint vectorSteps - (sint i + 1)) * ?r)
        = store_zero (store_zero h (uint memory + sint i * ?r) ?r)
            ((uint memory + sint i * ?r) + ?r) ((uint vectorSteps - (sint i + 1)) * ?r)"
      using "1.prems" by (simp add: step_offset_eq algebra_simps)
    also have "\<dots> = store_zero h (uint memory + sint i * ?r)
            (?r + (uint vectorSteps - (sint i + 1)) * ?r)"
      using lt rpos by (intro store_zero_append) simp_all
    also have "?r + (uint vectorSteps - (sint i + 1)) * ?r = (uint vectorSteps - sint i) * ?r"
      by (simp add: algebra_simps)
    finally show ?thesis
      using True ne j by (subst vector_loop.simps) (simp add: Let_def)
  next
    case False
    then have "uint vectorSteps \<le> sint i"
      using "1.prems" by (simp add: word_less_alt uint_scast_nonneg)
    with "1.prems" have eq: "sint i = uint vectorSteps" by simp
    then show ?thesis
      using False by (subst vector_loop.simps) (simp add: store_zero_none)
  qed
qed

lemma vector_loop_ub:
  "2147483647 < uint vectorSteps \<Longrightarrow> 0 \<le> sint i \<Longrightarrow>
   vector_loop b memory vectorSteps i h = Inl SignedOverflow"
proof (induction b memory vectorSteps i h rule: vector_loop.induct)
  case (1 b memory vectorSteps i h)
  have lt: "(scast i :: size_t) < vectorSteps"
    using "1.prems" sint_c_int_range [of i] by (simp add: word_less_alt uint_scast_nonneg)
  show ?case
  proof (cases "i = INT_MAX")
    case True
    with lt show ?thesis by (subst vector_loop.simps) simp
  next
    case False
    then have "sint (i + 1) = sint i + 1" by (rule sint_succ)
    with "1.prems" have "0 \<le> sint (i + 1)" by simp
    with "1.IH" [OF lt refl False] "1.prems"
    have "vector_loop b memory vectorSteps (i + 1)
            (store_zero h (uint memory + step_offset b i) (uint (registerSize b))) = Inl SignedOverflow"
      by simp
    with lt False show ?thesis by (subst vector_loop.simps) simp
  qed
qed

lemma uint_succ: "(i :: size_t) < s \<Longrightarrow> uint (i + 1) = uint i + 1"
proof -
  assume "i < s"
  then have "uint i < uint s" by (simp only: word_less_alt)
  moreover have "uint s < 2 ^ LENGTH(64)" by (rule uint_lt2p)
  ultimately have "uint i + uint (1 :: size_t) < 2 ^ LENGTH(64)" by simp
  then show ?thesis by (simp add: uint_add_lem [THEN iffD1])
qed

lemma tail_loop_eq:
  "i \<le> space \<Longrightarrow>
   tail_loop memory space i h = store_zero h (uint memory + uint i) (uint space - uint i)"
proof (induction memory space i h rule: tail_loop.induct)
  case (1 memory space i h)
  show ?case
  proof (cases "i < space")
    case True
    then have suc: "uint (i + 1) = uint i + 1" by (rule uint_succ)
    from True have lt: "uint i < uint space" by (simp only: word_less_alt)
    with suc have "i + 1 \<le> space" by (simp add: word_le_def)
    from "1.IH" [OF True this] suc
    have "tail_loop memory space (i + 1) (h(uint memory + uint i := 0))
        = store_zero (store_zero h (uint memory + uint i) 1) ((uint memory + uint i) + 1)
            (uint space - uint i - 1)"
      by (simp add: store_zero_byte algebra_simps)
    also have "\<dots> = store_zero h (uint memory + uint i) (1 + (uint space - uint i - 1))"
      using lt by (intro store_zero_append) simp_all
    finally show ?thesis using True by (subst tail_loop.simps) simp
  next
    case False
    with "1.prems" have "uint space - uint i \<le> 0" by (simp add: word_less_alt)
    with False show ?thesis by (subst tail_loop.simps) (simp add: store_zero_none)
  qed
qed


subsection \<open>The zero-fill as a whole\<close>

lemma int_div_mult_le: "0 < r \<Longrightarrow> (x :: int) div r * r \<le> x"
  using div_mult_mod_eq [of x r] pos_mod_sign [of r x] by linarith

lemma int_div_mult_gt: "0 < r \<Longrightarrow> (x :: int) < x div r * r + r"
  using div_mult_mod_eq [of x r] pos_mod_bound [of r x] by linarith

lemma registerSize_pos: "0 < uint (registerSize b)"
  by (cases b) simp_all

lemma uint_steps_mult:
  "uint (space div registerSize b * registerSize b)
     = uint space div uint (registerSize b) * uint (registerSize b)"
proof -
  let ?r = "uint (registerSize b)"
  have "uint space div ?r * ?r \<le> uint space"
    using registerSize_pos [of b] by (simp add: int_div_mult_le)
  then have "uint (space div registerSize b) * ?r < 18446744073709551616"
    using uint_size_t_bound [of space] by (simp add: uint_div)
  then show ?thesis by (simp add: uint_mult_small uint_div)
qed

lemma simd_clear_mem_ok:
  assumes "uint (space div registerSize b) \<le> 2147483647"
  shows "simd_clear_mem b memory space h = Inr (store_zero h (uint memory) (uint space))"
proof -
  let ?r = "uint (registerSize b)"
  let ?vs = "space div registerSize b"
  let ?n = "uint space div ?r * ?r"
  have n_le: "?n \<le> uint space"
    using registerSize_pos [of b] by (simp add: int_div_mult_le)
  have d_ge: "0 \<le> uint space div ?r"
    using registerSize_pos [of b] by (simp add: pos_imp_zdiv_nonneg_iff)
  then have n_ge: "0 \<le> ?n" by simp
  from vector_loop_ok [of ?vs 0 b memory h] assms d_ge
  obtain j where j: "vector_loop b memory ?vs 0 h = Inr (store_zero h (uint memory) ?n, j)"
    by (auto simp: uint_div)
  have le: "?vs * registerSize b \<le> space"
    using n_le by (simp add: word_le_def uint_steps_mult)
  have "tail_loop memory space (?vs * registerSize b) (store_zero h (uint memory) ?n)
      = store_zero (store_zero h (uint memory) ?n) (uint memory + ?n) (uint space - ?n)"
    using tail_loop_eq [OF le] by (simp add: uint_steps_mult)
  also have "\<dots> = store_zero h (uint memory) (?n + (uint space - ?n))"
    using n_le n_ge by (intro store_zero_append) simp_all
  finally show ?thesis using j by (simp add: simd_clear_mem_def)
qed

lemma simd_clear_mem_ub:
  assumes "2147483647 < uint (space div registerSize b)"
  shows "simd_clear_mem b memory space h = Inl SignedOverflow"
  using vector_loop_ub [of "space div registerSize b" 0 b memory h] assms
  by (simp add: simd_clear_mem_def)

subsection \<open>The wrapping counter past \<open>INT_MAX\<close>\<close>

lemma scast_INT_MIN: "uint (scast (INT_MAX + 1) :: size_t) = 18446744071562067968"
  by (simp add: INT_MAX_def)


lemma vector_loop_wrap_past:
  "2147483647 < uint vectorSteps \<Longrightarrow> uint vectorSteps \<le> 18446744071562067968 \<Longrightarrow>
   0 \<le> sint i \<Longrightarrow>
   vector_loop_wrap b memory vectorSteps i h =
     (store_zero h (uint memory + sint i * uint (registerSize b))
        ((2147483648 - sint i) * uint (registerSize b)), INT_MAX + 1)"
proof (induction b memory vectorSteps i h rule: vector_loop_wrap.induct)
  case (1 b memory vectorSteps i h)
  let ?r = "uint (registerSize b)"
  let ?h' = "store_zero h (uint memory + step_offset b i) ?r"
  have rpos: "0 \<le> ?r" by simp
  have lt: "(scast i :: size_t) < vectorSteps"
    using "1.prems" sint_c_int_range [of i] by (simp add: word_less_alt uint_scast_nonneg)
  have off: "step_offset b i = sint i * ?r" using "1.prems" by (simp add: step_offset_eq)
  show ?case
  proof (cases "i = INT_MAX")
    case True
    have "\<not> (scast (INT_MAX + 1) :: size_t) < vectorSteps"
      using "1.prems" by (simp only: word_less_alt scast_INT_MIN)
    then have "vector_loop_wrap b memory vectorSteps (INT_MAX + 1) ?h' = (?h', INT_MAX + 1)"
      by (subst vector_loop_wrap.simps) simp
    with lt True have "vector_loop_wrap b memory vectorSteps i h = (?h', INT_MAX + 1)"
      by (subst vector_loop_wrap.simps) simp
    moreover have "sint i = 2147483647" using True by (simp add: sint_INT_MAX)
    ultimately show ?thesis using off by simp
  next
    case False
    then have suc: "sint (i + 1) = sint i + 1" by (rule sint_succ)
    from False have ne: "sint i \<noteq> 2147483647" by (simp add: sint_eq_INT_MAX)
    with sint_c_int_range [of i] have lt2: "sint i < 2147483647" by simp
    from "1.IH" [OF lt] "1.prems" suc
    have "vector_loop_wrap b memory vectorSteps (i + 1) ?h'
        = (store_zero ?h' (uint memory + (sint i + 1) * ?r)
             ((2147483648 - (sint i + 1)) * ?r), INT_MAX + 1)"
      by simp
    moreover have "store_zero ?h' (uint memory + (sint i + 1) * ?r)
             ((2147483648 - (sint i + 1)) * ?r)
        = store_zero (store_zero h (uint memory + sint i * ?r) ?r)
            ((uint memory + sint i * ?r) + ?r) ((2147483648 - (sint i + 1)) * ?r)"
      using off by (simp add: algebra_simps)
    moreover have "\<dots> = store_zero h (uint memory + sint i * ?r)
            (?r + (2147483648 - (sint i + 1)) * ?r)"
      using lt2 rpos by (intro store_zero_append) simp_all
    moreover have "?r + (2147483648 - (sint i + 1)) * ?r = (2147483648 - sint i) * ?r"
      by (simp add: algebra_simps)
    ultimately show ?thesis
      using lt by (subst vector_loop_wrap.simps) simp
  qed
qed

lemma simd_clear_mem_wrap_past:
  assumes "2147483647 < uint (space div registerSize b)"
  shows "simd_clear_mem_wrap b memory space h =
     store_zero (store_zero h (uint memory) (2147483648 * uint (registerSize b)))
       (uint memory + uint space div uint (registerSize b) * uint (registerSize b))
       (uint space - uint space div uint (registerSize b) * uint (registerSize b))"
proof -
  let ?r = "uint (registerSize b)"
  let ?vs = "space div registerSize b"
  let ?n = "uint space div ?r * ?r"
  have "uint space div ?r \<le> 18446744071562067968"
    using uint_size_t_bound [of space] by (cases b) simp_all
  then have up: "uint ?vs \<le> 18446744071562067968" by (simp add: uint_div)
  have v: "vector_loop_wrap b memory ?vs 0 h
      = (store_zero h (uint memory) (2147483648 * ?r), INT_MAX + 1)"
    using vector_loop_wrap_past [OF assms up, of 0 b memory h] by simp
  have n_le: "?n \<le> uint space"
    using registerSize_pos [of b] by (rule int_div_mult_le)
  have le: "?vs * registerSize b \<le> space"
    using n_le by (simp add: word_le_def uint_steps_mult)
  show ?thesis
    using v tail_loop_eq [OF le] by (simp add: simd_clear_mem_wrap_def uint_steps_mult)
qed

subsection \<open>The rounded size\<close>

lemma uint_round:
  fixes sz a :: size_t
  assumes "a \<noteq> 0" and "uint sz + uint a - 1 < 18446744073709551616"
  shows "uint ((sz + a - 1) div a * a) = (uint sz + uint a - 1) div uint a * uint a"
proof -
  have apos: "0 < uint a" using assms(1) by (simp add: word_greater_zero_iff [symmetric] word_less_alt uint_0_iff)
  have "uint (sz + a - 1) = (uint sz + uint a - 1) mod 2 ^ LENGTH(64)"
    by (simp add: uint_word_ariths mod_simps)
  also have "\<dots> = uint sz + uint a - 1"
  proof (rule mod_pos_pos_trivial)
    show "0 \<le> uint sz + uint a - 1" using apos uint_ge_0 [of sz] by linarith
    show "uint sz + uint a - 1 < 2 ^ LENGTH(64)" using assms(2) by simp
  qed
  finally have x: "uint (sz + a - 1) = uint sz + uint a - 1" .
  have "(uint sz + uint a - 1) div uint a * uint a \<le> uint sz + uint a - 1"
    using apos by (rule int_div_mult_le)
  with assms(2) have "uint ((sz + a - 1) div a) * uint a < 18446744073709551616"
    by (simp add: uint_div x)
  then show ?thesis by (simp add: uint_mult_small uint_div x)
qed

subsection \<open>The allocation path\<close>

lemma alignment_nonzero: "alignment b \<noteq> 0"
  by (cases b) simp_all

lemma uint_SIZE_MAX: "uint SIZE_MAX = 18446744073709551615"
  by (simp add: SIZE_MAX_def)

lemma overflow_check_iff:
  "(items \<noteq> 0 \<and> sz > SIZE_MAX div items) = (18446744073709551615 < uint items * uint sz)"
proof (cases "items = 0")
  case True
  then show ?thesis by simp
next
  case False
  let ?n = "uint items" and ?M = "18446744073709551615 :: int"
  have npos: "0 < ?n" using False by (simp add: word_greater_zero_iff [symmetric] word_less_alt)
  have chk: "(sz > SIZE_MAX div items) = (?M div ?n < uint sz)"
    by (simp add: word_less_alt uint_div uint_SIZE_MAX)
  show ?thesis
  proof (cases "?M div ?n < uint sz")
    case True
    then have "(?M div ?n + 1) * ?n \<le> uint sz * ?n"
      using npos by (intro mult_right_mono) simp_all
    moreover have "?M < ?M div ?n * ?n + ?n" using npos by (rule int_div_mult_gt)
    ultimately have "?M < ?n * uint sz" by (simp add: algebra_simps)
    with True False chk show ?thesis by simp
  next
    case le: False
    then have "uint sz * ?n \<le> ?M div ?n * ?n"
      using npos by (intro mult_right_mono) simp_all
    moreover have "?M div ?n * ?n \<le> ?M" using npos by (rule int_div_mult_le)
    ultimately have "\<not> ?M < ?n * uint sz" by (simp add: algebra_simps)
    with le chk show ?thesis by simp
  qed
qed

lemma round_to_alignment_Inr:
  "a \<noteq> 0 \<Longrightarrow> round_to_alignment sz a = Inr ((sz + a - 1) div a * a)"
  by (simp add: round_to_alignment_def)

lemma calloc_simd_success:
  assumes "\<not> (items \<noteq> 0 \<and> sz > SIZE_MAX div items)"
    and "tot = (items * sz + alignment b - 1) div alignment b * alignment b"
    and "aligned_alloc (alignment b) tot \<noteq> NULL"
    and "uint (tot div registerSize b) \<le> 2147483647"
  shows "calloc_simd b aligned_alloc items sz w =
     Inr (aligned_alloc (alignment b) tot,
          \<lparr>heap = store_zero (heap w) (uint (aligned_alloc (alignment b) tot)) (uint tot),
           calls = calls w @ [AlignedAlloc (alignment b) tot,
                              ClearMem (aligned_alloc (alignment b) tot) tot]\<rparr>)"
  using assms
  by (simp add: calloc_simd_def round_to_alignment_Inr alignment_nonzero Let_def simd_clear_mem_ok)

lemma alignment_pos: "0 < uint (alignment b)"
  by (cases b) simp_all

subsection \<open>Rounding\<close>

lemma word_nonzero_uint_pos: "(a :: size_t) \<noteq> 0 \<Longrightarrow> 0 < uint a"
  by (simp add: word_greater_zero_iff [symmetric] word_less_alt)

lemma round_bounds:
  fixes sz a :: size_t
  assumes "a \<noteq> 0" and "uint sz + uint a - 1 < 18446744073709551616"
  shows "uint sz \<le> uint ((sz + a - 1) div a * a)"
    and "uint ((sz + a - 1) div a * a) < uint sz + uint a"
proof -
  have apos: "0 < uint a" using assms(1) by (rule word_nonzero_uint_pos)
  let ?x = "uint sz + uint a - 1"
  have "?x < ?x div uint a * uint a + uint a" using apos by (rule int_div_mult_gt)
  then show "uint sz \<le> uint ((sz + a - 1) div a * a)"
    using assms by (simp add: uint_round)
  have "?x div uint a * uint a \<le> ?x" using apos by (rule int_div_mult_le)
  then show "uint ((sz + a - 1) div a * a) < uint sz + uint a"
    using assms by (simp add: uint_round)
qed

lemma round_multiple:
  fixes sz a :: size_t
  assumes "a \<noteq> 0" and "uint sz + uint a - 1 < 18446744073709551616"
  shows "uint a dvd uint ((sz + a - 1) div a * a)"
  using assms by (simp add: uint_round)

lemma round_fixpoint:
  fixes r a :: size_t
  assumes "a \<in> {16, 32, 64}" and "uint a dvd uint r"
  shows "(r + a - 1) div a * a = r"
proof -
  have a0: "a \<noteq> 0" using assms(1) by auto
  have apos: "0 < uint a" using a0 by (rule word_nonzero_uint_pos)
  from assms(2) obtain k where k: "uint r = uint a * k" by (auto simp: dvd_def)
  have "uint a dvd 18446744073709551616" using assms(1) by auto
  then obtain m where m: "18446744073709551616 = uint a * m" by (auto simp: dvd_def)
  have "uint a * k < uint a * m" using uint_size_t_bound [of r] k m by simp
  then have "k < m" using apos by (simp add: mult_less_cancel_left_pos)
  then have "uint a * (k + 1) \<le> uint a * m" using apos by simp
  then have nov: "uint r + uint a - 1 < 18446744073709551616"
    using k m by (simp add: algebra_simps)
  have "(uint a * k + uint a - 1) div uint a = k"
  proof -
    have "uint a * k + uint a - 1 = (uint a - 1) + k * uint a" by (simp add: algebra_simps)
    then have "(uint a * k + uint a - 1) div uint a = (uint a - 1) div uint a + k"
      using apos by (simp only: div_mult_self1)
    then show ?thesis using apos by (simp add: div_pos_pos_trivial)
  qed
  then have "uint ((r + a - 1) div a * a) = uint r"
    using a0 nov k by (simp add: uint_round)
  then show ?thesis by (rule word_uint_eqI)
qed

section \<open>The claims\<close>

subsection \<open>C5: chunk width of the zero-fill against the alignment\<close>

text \<open>
  Claim C5 says that in every build the per-step store width of \<open>simd_clear_mem\<close> equals
  the alignment chosen by \<open>calloc_simd\<close>, also in the no-vector fallback. The source
  sets \<open>registerSize = 8\<close> in the \<open>#else\<close> branch (one \<open>double\<close> per step) while the
  alignment stays 16, so the claim fails for that build.
\<close>

theorem chunk_width_fallback_counterexample:
  "registerSize NoVector \<noteq> alignment NoVector"
  by simp

text \<open>
  Claim C5, amended: in the AVX-512F, AVX2 and SSE2 builds the per-step store width equals
  the alignment (64, 32 and 16 bytes); in the no-vector fallback the alignment is 16 bytes
  and the zero-fill stores 8 bytes per step. The last conjunct is one step of the loop:
  it zeroes \<open>registerSize\<close> bytes.
\<close>

theorem chunk_width_by_build:
  "registerSize AVX512F = 64 \<and> alignment AVX512F = 64 \<and>
   registerSize AVX2 = 32 \<and> alignment AVX2 = 32 \<and>
   registerSize SSE2 = 16 \<and> alignment SSE2 = 16 \<and>
   registerSize NoVector = 8 \<and> alignment NoVector = 16 \<and>
   (\<exists>j. vector_loop b memory 1 0 h
      = Inr (store_zero h (uint memory) (uint (registerSize b)), j))"
proof -
  have "\<exists>j. vector_loop b memory 1 0 h
      = Inr (store_zero h (uint memory) (uint (registerSize b)), j)"
    using vector_loop_ok [of 1 0 b memory h] by auto
  then show ?thesis by simp
qed

subsection \<open>C3: the product overflow check\<close>

text \<open>
  Claim C3: for every pair with \<open>items \<noteq> 0\<close> and \<open>size > SIZE_MAX / items\<close>,
  \<open>calloc_simd\<close> returns \<open>NULL\<close> and makes no request to the allocator: the world,
  and with it the list of calls, is returned as it was. By \<open>overflow_check_iff\<close> the
  condition is exactly that the product exceeds \<open>SIZE_MAX\<close>.
\<close>

theorem calloc_simd_overflow_null:
  "items \<noteq> 0 \<Longrightarrow> sz > SIZE_MAX div items \<Longrightarrow>
   calloc_simd b aligned_alloc items sz w = Inr (NULL, w)"
  by (simp add: calloc_simd_def)

theorem calloc_simd_overflow_null_witness:
  "(2 :: size_t) \<noteq> 0 \<and> SIZE_MAX > SIZE_MAX div 2 \<and>
   calloc_simd SSE2 (\<lambda>a s. 4096) 2 SIZE_MAX \<lparr>heap = \<lambda>x. 255, calls = []\<rparr>
     = Inr (NULL, \<lparr>heap = \<lambda>x. 255, calls = []\<rparr>)"
proof -
  have a: "(2 :: size_t) \<noteq> 0" by simp
  have b: "SIZE_MAX > SIZE_MAX div 2" by (simp add: SIZE_MAX_def)
  show ?thesis using a b calloc_simd_overflow_null [OF a b] by simp
qed

subsection \<open>C9: totality of the rounding function\<close>

text \<open>
  Claim C9 says that \<open>round_to_alignment\<close> is pure and total for all non-overflowing
  inputs, for every non-overflowing value of the alignment argument too. It is pure: its
  result depends on its two arguments only and it touches no memory. It is not total: for
  \<open>size = 5\<close> and \<open>alignment = 0\<close> the sum \<open>5 + 0 - 1\<close> does not overflow, and the
  division by \<open>alignment\<close> is a division by zero.
\<close>

theorem round_to_alignment_zero_counterexample:
  "round_to_alignment 5 0 = Inl DivisionByZero"
  by (simp add: round_to_alignment_def)

text \<open>
  Claim C9, amended: \<open>round_to_alignment\<close> is pure and total for all non-overflowing
  inputs whose alignment is not zero, and its result is then the integer
  \<open>(size + alignment - 1) div alignment * alignment\<close>.
\<close>

theorem round_to_alignment_total:
  "a \<noteq> 0 \<Longrightarrow> uint sz + uint a - 1 < 18446744073709551616 \<Longrightarrow>
   \<exists>r. round_to_alignment sz a = Inr r
     \<and> uint r = (uint sz + uint a - 1) div uint a * uint a"
  by (simp add: round_to_alignment_def uint_round)

theorem round_to_alignment_total_witness:
  "(16 :: size_t) \<noteq> 0 \<and> uint (15 :: size_t) + uint (16 :: size_t) - 1 < 18446744073709551616 \<and>
   (\<exists>r. round_to_alignment 15 16 = Inr r
     \<and> uint r = (uint (15 :: size_t) + uint (16 :: size_t) - 1) div uint (16 :: size_t) * uint (16 :: size_t))"
proof -
  have a: "(16 :: size_t) \<noteq> 0" by simp
  have b: "uint (15 :: size_t) + uint (16 :: size_t) - 1 < 18446744073709551616" by simp
  show ?thesis using a b round_to_alignment_total [OF a b] by blast
qed

subsection \<open>C8: the rounded size is at least the size, and less than one alignment above\<close>

text \<open>
  Claim C8: for every non-overflowing pair \<open>(size, alignment)\<close>, with the alignment a
  positive byte count, \<open>round_to_alignment size alignment \<ge> size\<close> and
  \<open>round_to_alignment size alignment - size < alignment\<close>, both in \<open>size_t\<close>.
\<close>

theorem round_to_alignment_bounds:
  "a \<noteq> 0 \<Longrightarrow> uint sz + uint a - 1 < 18446744073709551616 \<Longrightarrow>
   \<exists>r. round_to_alignment sz a = Inr r \<and> sz \<le> r \<and> r - sz < a"
proof -
  assume a: "a \<noteq> 0" and b: "uint sz + uint a - 1 < 18446744073709551616"
  let ?r = "(sz + a - 1) div a * a"
  have le: "sz \<le> ?r" using round_bounds(1) [OF a b] by (simp add: word_le_def)
  then have "uint (?r - sz) = uint ?r - uint sz" by (simp add: uint_minus_simple_alt)
  with round_bounds(2) [OF a b] have "?r - sz < a" by (simp add: word_less_alt)
  with le a show ?thesis by (simp add: round_to_alignment_def)
qed

theorem round_to_alignment_bounds_witness:
  "(16 :: size_t) \<noteq> 0 \<and> uint (15 :: size_t) + uint (16 :: size_t) - 1 < 18446744073709551616 \<and>
   (\<exists>r. round_to_alignment 15 16 = Inr r \<and> 15 \<le> r \<and> r - 15 < 16)"
proof -
  have a: "(16 :: size_t) \<noteq> 0" by simp
  have b: "uint (15 :: size_t) + uint (16 :: size_t) - 1 < 18446744073709551616" by simp
  show ?thesis using a b round_to_alignment_bounds [OF a b] by blast
qed

subsection \<open>C7: rounding is idempotent\<close>

text \<open>
  Claim C7: for every non-overflowing size and every alignment used by a build (16, 32 or
  64), rounding the rounded size again returns it unchanged.
\<close>

theorem round_to_alignment_idempotent:
  "a \<in> {16, 32, 64} \<Longrightarrow> uint sz + uint a - 1 < 18446744073709551616 \<Longrightarrow>
   \<exists>r. round_to_alignment sz a = Inr r \<and> round_to_alignment r a = Inr r"
proof -
  assume a: "a \<in> {16, 32, 64}" and b: "uint sz + uint a - 1 < 18446744073709551616"
  have a0: "a \<noteq> 0" using a by auto
  let ?r = "(sz + a - 1) div a * a"
  have "uint a dvd uint ?r" using a0 b by (rule round_multiple)
  with a have "(?r + a - 1) div a * a = ?r" by (rule round_fixpoint)
  with a0 show ?thesis by (simp add: round_to_alignment_def)
qed

theorem round_to_alignment_idempotent_witness:
  "(32 :: size_t) \<in> {16, 32, 64} \<and> uint (33 :: size_t) + uint (32 :: size_t) - 1 < 18446744073709551616 \<and>
   (\<exists>r. round_to_alignment 33 32 = Inr r \<and> round_to_alignment r 32 = Inr r)"
proof -
  have a: "(32 :: size_t) \<in> {16, 32, 64}" by simp
  have b: "uint (33 :: size_t) + uint (32 :: size_t) - 1 < 18446744073709551616" by simp
  show ?thesis using a b round_to_alignment_idempotent [OF a b] by blast
qed

subsection \<open>C2: length and alignment of the allocated block\<close>

text \<open>
  Claim C2: for every non-overflowing pair \<open>(items, size)\<close>, where neither the product
  nor the rounding sum \<open>items * size + alignment - 1\<close> exceeds \<open>SIZE_MAX\<close>, for which
  \<open>calloc_simd\<close> returns a non-null pointer, the block has the length
  \<open>round_to_alignment (items * size) alignment\<close>, which is at least \<open>items * size\<close> and
  a multiple of the build's alignment, and the one request to the allocator asks for that
  length at that alignment; the same length is then cleared.
\<close>

theorem calloc_simd_block_length:
  assumes "uint items * uint sz + uint (alignment b) - 1 < 18446744073709551616"
    and "calloc_simd b aligned_alloc items sz w = Inr (p, w')"
    and "p \<noteq> NULL"
  shows "\<exists>tot. round_to_alignment (items * sz) (alignment b) = Inr tot
     \<and> uint items * uint sz \<le> uint tot
     \<and> uint (alignment b) dvd uint tot
     \<and> p = aligned_alloc (alignment b) tot
     \<and> calls w' = calls w @ [AlignedAlloc (alignment b) tot, ClearMem p tot]"
proof -
  let ?a = "alignment b"
  let ?tot = "(items * sz + ?a - 1) div ?a * ?a"
  have a0: "?a \<noteq> 0" by (rule alignment_nonzero)
  have "uint items * uint sz < 18446744073709551616"
    using assms(1) alignment_pos [of b] by linarith
  then have prod: "uint (items * sz) = uint items * uint sz" by (rule uint_mult_small)
  with assms(1) have nov: "uint (items * sz) + uint ?a - 1 < 18446744073709551616" by simp
  have r: "round_to_alignment (items * sz) ?a = Inr ?tot" using a0 by (rule round_to_alignment_Inr)
  have ge: "uint items * uint sz \<le> uint ?tot" using round_bounds(1) [OF a0 nov] prod by simp
  have dv: "uint ?a dvd uint ?tot" using a0 nov by (rule round_multiple)
  have "p = aligned_alloc ?a ?tot \<and> calls w' = calls w @ [AlignedAlloc ?a ?tot, ClearMem p ?tot]"
    using assms(2,3) r
    by (auto simp: calloc_simd_def Let_def split: if_splits sum.splits)
  with r ge dv show ?thesis by blast
qed

theorem calloc_simd_block_length_witness:
  "uint (1000 :: size_t) * uint (8 :: size_t) + uint (alignment AVX2) - 1 < 18446744073709551616
   \<and> calloc_simd AVX2 (\<lambda>a s. 4096) 1000 8 \<lparr>heap = \<lambda>x. 255, calls = []\<rparr>
       = Inr (4096, \<lparr>heap = store_zero (\<lambda>x. 255) 4096 8000,
                     calls = [AlignedAlloc 32 8000, ClearMem 4096 8000]\<rparr>)
   \<and> (4096 :: size_t) \<noteq> NULL
   \<and> (\<exists>tot. round_to_alignment (1000 * 8) (alignment AVX2) = Inr tot
     \<and> uint (1000 :: size_t) * uint (8 :: size_t) \<le> uint tot
     \<and> uint (alignment AVX2) dvd uint tot
     \<and> (4096 :: size_t) = (\<lambda>a s. 4096) (alignment AVX2) tot
     \<and> calls \<lparr>heap = store_zero (\<lambda>x. 255) 4096 8000,
                     calls = [AlignedAlloc 32 8000, ClearMem 4096 8000]\<rparr>
          = calls \<lparr>heap = \<lambda>x. 255, calls = []\<rparr> @ [AlignedAlloc (alignment AVX2) tot, ClearMem 4096 tot])"
proof -
  have a: "uint (1000 :: size_t) * uint (8 :: size_t) + uint (alignment AVX2) - 1 < 18446744073709551616"
    by simp
  have b: "calloc_simd AVX2 (\<lambda>a s. 4096) 1000 8 \<lparr>heap = \<lambda>x. 255, calls = []\<rparr>
       = Inr (4096, \<lparr>heap = store_zero (\<lambda>x. 255) 4096 8000,
                     calls = [AlignedAlloc 32 8000, ClearMem 4096 8000]\<rparr>)"
    using calloc_simd_success [of 1000 8 8000 AVX2 "\<lambda>a s. 4096" "\<lparr>heap = \<lambda>x. 255, calls = []\<rparr>"]
    by (simp add: SIZE_MAX_def NULL_def)
  have c: "(4096 :: size_t) \<noteq> NULL" by (simp add: NULL_def)
  show ?thesis using a b c calloc_simd_block_length [OF a b c] by blast
qed

subsection \<open>C6: failure of the allocator\<close>

text \<open>
  Claim C6: when the allocator is asked and returns \<open>NULL\<close>, \<open>calloc_simd\<close> returns
  \<open>NULL\<close>; the zero-fill is not run on that path (no call of \<open>simd_clear_mem\<close> is made
  and the heap is as before), and no block is returned as a success.
\<close>

theorem calloc_simd_alloc_failure:
  "\<not> (items \<noteq> 0 \<and> sz > SIZE_MAX div items) \<Longrightarrow>
   round_to_alignment (items * sz) (alignment b) = Inr tot \<Longrightarrow>
   aligned_alloc (alignment b) tot = NULL \<Longrightarrow>
   calloc_simd b aligned_alloc items sz w
     = Inr (NULL, w\<lparr>calls := calls w @ [AlignedAlloc (alignment b) tot]\<rparr>)"
  by (auto simp: calloc_simd_def Let_def)

theorem calloc_simd_alloc_failure_witness:
  "\<not> ((3 :: size_t) \<noteq> 0 \<and> 5 > SIZE_MAX div 3)
   \<and> round_to_alignment (3 * 5) (alignment SSE2) = Inr 16
   \<and> (\<lambda>a s. NULL) (alignment SSE2) (16 :: size_t) = NULL
   \<and> calloc_simd SSE2 (\<lambda>a s. NULL) 3 5 \<lparr>heap = \<lambda>x. 255, calls = []\<rparr>
     = Inr (NULL, \<lparr>heap = \<lambda>x. 255, calls = [AlignedAlloc 16 16]\<rparr>)"
proof -
  have a: "\<not> ((3 :: size_t) \<noteq> 0 \<and> 5 > SIZE_MAX div 3)" by (simp add: SIZE_MAX_def)
  have b: "round_to_alignment (3 * 5) (alignment SSE2) = Inr 16"
    by (simp add: round_to_alignment_def)
  have c: "(\<lambda>a s. NULL) (alignment SSE2) (16 :: size_t) = NULL" by simp
  show ?thesis
    using a b c calloc_simd_alloc_failure [OF a b c, of "\<lparr>heap = \<lambda>x. 255, calls = []\<rparr>"]
    by simp
qed

subsection \<open>C10: the signed counter of the chunked loop\<close>

text \<open>
  Claim C10: the chunked loop counts with an \<open>int\<close> against the \<open>size_t\<close> step count
  \<open>space / registerSize\<close>. When the step count is at most \<open>INT_MAX\<close>, the loop ends with
  the counter equal to the step count, that is after exactly that many iterations (the
  counter starts at 0 and grows by one per iteration), having zeroed that many chunks,
  and \<open>simd_clear_mem\<close> completes with every byte of \<open>[0, space)\<close> zero. The bound is
  needed: above it the counter reaches \<open>INT_MAX\<close> with steps left and \<open>i++\<close> overflows.
\<close>

theorem vector_loop_iterations:
  "(uint (space div registerSize b) \<le> sint INT_MAX \<longrightarrow>
      (\<exists>j. vector_loop b memory (space div registerSize b) 0 h
            = Inr (store_zero h (uint memory)
                     (uint (space div registerSize b) * uint (registerSize b)), j)
          \<and> sint j = uint (space div registerSize b))
      \<and> simd_clear_mem b memory space h = Inr (store_zero h (uint memory) (uint space)))
   \<and> (sint INT_MAX < uint (space div registerSize b) \<longrightarrow>
      vector_loop b memory (space div registerSize b) 0 h = Inl SignedOverflow
      \<and> simd_clear_mem b memory space h = Inl SignedOverflow)"
proof (intro conjI impI)
  assume "uint (space div registerSize b) \<le> sint INT_MAX"
  then have le: "uint (space div registerSize b) \<le> 2147483647"
    by (simp add: sint_INT_MAX)
  show "\<exists>j. vector_loop b memory (space div registerSize b) 0 h
            = Inr (store_zero h (uint memory)
                     (uint (space div registerSize b) * uint (registerSize b)), j)
          \<and> sint j = uint (space div registerSize b)"
    using vector_loop_ok [of "space div registerSize b" 0 b memory h] le by simp
  show "simd_clear_mem b memory space h = Inr (store_zero h (uint memory) (uint space))"
    using le by (rule simd_clear_mem_ok)
next
  assume "sint INT_MAX < uint (space div registerSize b)"
  then have gt: "2147483647 < uint (space div registerSize b)"
    by (simp add: sint_INT_MAX)
  show "vector_loop b memory (space div registerSize b) 0 h = Inl SignedOverflow"
    using gt by (intro vector_loop_ub) simp_all
  show "simd_clear_mem b memory space h = Inl SignedOverflow"
    using gt by (rule simd_clear_mem_ub)
qed

theorem vector_loop_iterations_witness:
  "uint ((48 :: size_t) div registerSize SSE2) \<le> sint INT_MAX
   \<and> (\<exists>j. vector_loop SSE2 4096 (48 div registerSize SSE2) 0 (\<lambda>x. 255)
            = Inr (store_zero (\<lambda>x. 255) 4096 48, j) \<and> sint j = 3)
   \<and> simd_clear_mem SSE2 4096 48 (\<lambda>x. 255) = Inr (store_zero (\<lambda>x. 255) 4096 48)
   \<and> sint INT_MAX < uint ((17179869200 :: size_t) div registerSize NoVector)
   \<and> vector_loop NoVector 4096 (17179869200 div registerSize NoVector) 0 (\<lambda>x. 255)
        = Inl SignedOverflow
   \<and> simd_clear_mem NoVector 4096 17179869200 (\<lambda>x. 255) = Inl SignedOverflow"
  using vector_loop_iterations [of 48 SSE2 4096 "\<lambda>x. 255"]
    vector_loop_iterations [of 17179869200 NoVector 4096 "\<lambda>x. 255"]
  by (simp add: sint_INT_MAX)

subsection \<open>C1: the returned block is zero-filled\<close>

text \<open>
  Claim C1 says that \<open>simd_clear_mem memory space\<close> zeroes every byte of \<open>[0, space)\<close>
  for every \<open>space\<close>, so that every block \<open>calloc_simd\<close> returns is zero-filled. By
  \<open>simd_clear_mem_ok\<close> this holds while \<open>space / registerSize \<le> INT_MAX\<close>. In the SSE2
  build a request of \<open>2 ^ 31 + 1\<close> items of 16 bytes is a block of \<open>2 ^ 35 + 16\<close> bytes
  and \<open>2 ^ 31 + 1\<close> steps. After \<open>2 ^ 31\<close> stores the \<open>int\<close> counter is at \<open>INT_MAX\<close>
  with one chunk left and \<open>i++\<close> overflows. Where the counter wraps, it converts to a
  \<open>size_t\<close> above the step count, the loop is left, the byte loop starts at
  \<open>vectorSteps * registerSize = space\<close> and does nothing: the pointer is returned with the
  last chunk, from offset \<open>2 ^ 35\<close>, as the allocator left it. The byte loop next to it
  counts in \<open>size_t\<close>.
\<close>

theorem calloc_simd_counter_overflow:
  "calloc_simd SSE2 (\<lambda>a s. 4096) 2147483649 16 \<lparr>heap = \<lambda>x. 255, calls = []\<rparr>
       = Inl SignedOverflow
   \<and> calloc_simd_wrap SSE2 (\<lambda>a s. 4096) 2147483649 16 \<lparr>heap = \<lambda>x. 255, calls = []\<rparr>
       = Inr (4096, \<lparr>heap = store_zero (\<lambda>x. 255) 4096 34359738368,
                     calls = [AlignedAlloc 16 34359738384, ClearMem 4096 34359738384]\<rparr>)
   \<and> store_zero (\<lambda>x. 255) 4096 34359738368 (4096 + 34359738368) = 255"
proof -
  have a: "simd_clear_mem SSE2 4096 34359738384 (\<lambda>x. 255) = Inl SignedOverflow"
    by (rule simd_clear_mem_ub) simp
  have b: "simd_clear_mem_wrap SSE2 4096 34359738384 (\<lambda>x. 255)
      = store_zero (\<lambda>x. 255) 4096 34359738368"
    using simd_clear_mem_wrap_past [of 34359738384 SSE2 4096 "\<lambda>x. 255"]
    by (simp add: store_zero_none)
  have c: "store_zero (\<lambda>x. 255) 4096 34359738368 (4096 + 34359738368) = (255 :: byte)"
    by (simp add: store_zero_def)
  show ?thesis
    using a b c
    by (simp add: calloc_simd_def calloc_simd_wrap_def SIZE_MAX_def NULL_def
        round_to_alignment_def Let_def)
qed

subsection \<open>C4: overflow of the rounding sum\<close>

text \<open>
  Claim C4 says that \<open>calloc_simd\<close> fails when \<open>items * size\<close> passes the product check
  and \<open>total_bytes + alignment - 1\<close> wraps around. The source has no such check: for one
  item of \<open>SIZE_MAX\<close> bytes the product check passes, the sum wraps to 14, the rounded
  size is 0, and an allocator that serves the empty request makes the call succeed with a
  block of no bytes.
\<close>

theorem calloc_simd_rounding_wraps:
  "\<not> ((1 :: size_t) \<noteq> 0 \<and> SIZE_MAX > SIZE_MAX div 1)
   \<and> round_to_alignment (1 * SIZE_MAX) (alignment SSE2) = Inr 0
   \<and> calloc_simd SSE2 (\<lambda>a s. 4096) 1 SIZE_MAX \<lparr>heap = \<lambda>x. 255, calls = []\<rparr>
       = Inr (4096, \<lparr>heap = \<lambda>x. 255, calls = [AlignedAlloc 16 0, ClearMem 4096 0]\<rparr>)"
proof -
  have "calloc_simd SSE2 (\<lambda>a s. 4096) 1 SIZE_MAX \<lparr>heap = \<lambda>x. 255, calls = []\<rparr>
       = Inr (4096, \<lparr>heap = \<lambda>x. 255, calls = [AlignedAlloc 16 0, ClearMem 4096 0]\<rparr>)"
    using calloc_simd_success [of 1 SIZE_MAX 0 SSE2 "\<lambda>a s. 4096" "\<lparr>heap = \<lambda>x. 255, calls = []\<rparr>"]
    by (simp add: SIZE_MAX_def NULL_def store_zero_none)
  then show ?thesis by (simp add: SIZE_MAX_def round_to_alignment_def)
qed

end
